theory Spec2Isabelle
  imports Main "HOL-Library.Word"
begin

section \<open>The job function of square\_solver.cpp\<close>

subsection \<open>Library functions the job function calls\<close>

text \<open>
  \<open>std::stoi\<close> signals failure with one of two exceptions. They are values here, and a
  result \<open>Inl e\<close> stands for the exception \<open>e\<close> leaving the function.
\<close>

datatype stoi_exception = invalid_argument | out_of_range

text \<open>\<open>std::string::c_str\<close> read as a C string: the bytes before the first NUL.\<close>

definition cstring :: "string \<Rightarrow> string" where
  "cstring s = takeWhile (\<lambda>ch. ch \<noteq> CHR 0x00) s"

definition isspace :: "char \<Rightarrow> bool" where
  "isspace ch = (ch = CHR 0x20 \<or> ch = CHR 0x09 \<or> ch = CHR 0x0A \<or> ch = CHR 0x0B
     \<or> ch = CHR 0x0C \<or> ch = CHR 0x0D)"

definition isdigit :: "char \<Rightarrow> bool" where
  "isdigit ch = (ch \<in> set ''0123456789'')"

definition digit_value :: "char \<Rightarrow> int" where
  "digit_value ch = int (of_char ch) - 48"

definition digits_value :: "string \<Rightarrow> int" where
  "digits_value ds = foldl (\<lambda>acc ch. 10 * acc + digit_value ch) 0 ds"

definition INT_MIN :: int where
  "INT_MIN = - 2147483648"

definition INT_MAX :: int where
  "INT_MAX = 2147483647"

text \<open>
  \<open>std::stoi(str)\<close> in base 10, as the C++ standard describes it through \<open>strtol\<close>:
  leading white space is skipped, one sign is accepted, the longest run of decimal
  digits is converted and whatever follows is ignored. No digit at all raises
  \<open>invalid_argument\<close>; a value outside the range of \<open>int\<close> raises \<open>out_of_range\<close>.
\<close>

definition stoi :: "string \<Rightarrow> stoi_exception + int" where
  "stoi str =
    (let s = dropWhile isspace (cstring str);
         neg = (case s of [] \<Rightarrow> False | ch # _ \<Rightarrow> ch = CHR ''-'');
         body = (case s of [] \<Rightarrow> [] | ch # r \<Rightarrow> if ch = CHR ''-'' \<or> ch = CHR ''+'' then r else s);
         ds = takeWhile isdigit body;
         v = (if neg then - digits_value ds else digits_value ds)
     in if ds = [] then Inl invalid_argument
        else if v < INT_MIN \<or> INT_MAX < v then Inl out_of_range
        else Inr v)"

text \<open>\<open>std::string::resize(n)\<close>: cut to \<open>n\<close> bytes, or pad with NUL bytes up to \<open>n\<close>.\<close>

definition resize :: "nat \<Rightarrow> string \<Rightarrow> string" where
  "resize n s = take n s @ replicate (n - length s) (CHR 0x00)"

text \<open>
  \<open>std::snprintf(buf, size, ...)\<close>, where \<open>text\<close> is the fully formatted output: at most
  \<open>size - 1\<close> bytes of it are stored, followed by a NUL, the rest of the buffer is left
  as it was, and the length of the whole formatted output is returned.
\<close>

definition snprintf :: "string \<Rightarrow> string \<Rightarrow> string \<times> nat" where
  "snprintf buf text =
    (if buf = [] then (buf, length text)
     else let w = take (length buf - 1) text
          in (w @ [CHR 0x00] @ drop (Suc (length w)) buf, length text))"

text \<open>
  The arithmetic of \<open>double\<close> and the \<open>%.6g\<close> conversion of \<open>snprintf\<close> belong to the
  platform. The job function is parameterised by them, so that every statement below
  holds for each implementation of floating point.
\<close>

record 'd double_ops =
  d_of_int :: "int \<Rightarrow> 'd"
  d_lit :: "int \<Rightarrow> int \<Rightarrow> 'd"
  d_add :: "'d \<Rightarrow> 'd \<Rightarrow> 'd"
  d_sub :: "'d \<Rightarrow> 'd \<Rightarrow> 'd"
  d_mul :: "'d \<Rightarrow> 'd \<Rightarrow> 'd"
  d_div :: "'d \<Rightarrow> 'd \<Rightarrow> 'd"
  d_neg :: "'d \<Rightarrow> 'd"
  d_abs :: "'d \<Rightarrow> 'd"
  d_sqrt :: "'d \<Rightarrow> 'd"
  d_less :: "'d \<Rightarrow> 'd \<Rightarrow> bool"
  d_fmt_g6 :: "'d \<Rightarrow> string"

text \<open>
  \<open>d_lit m e\<close> is the literal \<open>m\<close> times ten to the power \<open>e\<close>: \<open>1e-7\<close> is \<open>d_lit 1 (-7)\<close>,
  \<open>4.\<close> is \<open>d_lit 4 0\<close> and \<open>0.5\<close> is \<open>d_lit 5 (-1)\<close>.
\<close>

text \<open>
  Unary minus on \<open>int\<close>. Negating \<open>INT_MIN\<close> overflows; the two's complement result,
  \<open>INT_MIN\<close> again, is written out.
\<close>

definition int_neg :: "int \<Rightarrow> int" where
  "int_neg b = (if b = INT_MIN then INT_MIN else - b)"

text \<open>
  \<open>char format_buf[30]\<close> filled by \<open>snprintf\<close> and appended with \<open>answer.append(format_buf)\<close>:
  what is appended is the C string the buffer then holds, at most 29 bytes of the
  formatted text. The bytes the buffer held before do not matter, since \<open>snprintf\<close>
  ends what it stores with a NUL.
\<close>

definition format_buf :: "string \<Rightarrow> string" where
  "format_buf text = cstring (fst (snprintf (replicate 30 (CHR 0x00)) text))"

subsection \<open>calculate\_square\_roots\<close>

definition epsilon :: "'d double_ops \<Rightarrow> 'd" where
  "epsilon ops = d_lit ops 1 (- 7)"

definition decorate_float :: "'d double_ops \<Rightarrow> 'd \<Rightarrow> 'd" where
  "decorate_float ops num =
    (if d_less ops (d_abs ops num) (epsilon ops) then d_of_int ops 0 else num)"

text \<open>The literal \<open>"(x \<in> R)"\<close> of the source, whose middle character is three bytes of UTF-8.\<close>

definition x_in_R :: string where
  "x_in_R = ''(x '' @ [CHR 0xE2, CHR 0x88, CHR 0x88] @ '' R)''"

text \<open>
  The first four statements: the buffer is sized, filled by \<open>snprintf\<close> with
  \<open>"(%s %s %s) => "\<close> and cut to the length \<open>snprintf\<close> returned.
\<close>

definition answer_head :: "string \<Rightarrow> string \<Rightarrow> string \<Rightarrow> string" where
  "answer_head a_str b_str c_str =
    (let answer = resize (length a_str + length b_str + length c_str + 10) [];
         (answer, size) = snprintf answer
            (''('' @ cstring a_str @ '' '' @ cstring b_str @ '' '' @ cstring c_str @ '') => '')
     in resize size answer)"

text \<open>The \<open>try\<close> block: three conversions in order, the first exception ends it.\<close>

definition try_stoi :: "string \<Rightarrow> string \<Rightarrow> string \<Rightarrow> stoi_exception + (int \<times> int \<times> int)" where
  "try_stoi a_str b_str c_str =
    (case stoi a_str of Inl e \<Rightarrow> Inl e | Inr a \<Rightarrow>
     (case stoi b_str of Inl e \<Rightarrow> Inl e | Inr b \<Rightarrow>
      (case stoi c_str of Inl e \<Rightarrow> Inl e | Inr c \<Rightarrow> Inr (a, b, c))))"

definition calculate_square_roots ::
  "'d double_ops \<Rightarrow> string \<Rightarrow> string \<Rightarrow> string \<Rightarrow> stoi_exception + string" where
  "calculate_square_roots ops a_str b_str c_str =
    (let answer = answer_head a_str b_str c_str in
     case try_stoi a_str b_str c_str of
       Inl e \<Rightarrow>
         if e = invalid_argument then Inr (answer @ ''invalid argument'')
         else if e = out_of_range then Inr (answer @ ''out of range'')
         else Inl e
     | Inr (a, b, c) \<Rightarrow>
         if a = 0 then
           (if b = 0 then Inr (answer @ x_in_R)
            else if c = 0 then Inr (answer @ ''(0)'')
            else
              let x = d_div ops (d_of_int ops b) (d_of_int ops c)
              in Inr (answer @ format_buf (''('' @ d_fmt_g6 ops (decorate_float ops x) @ '')'')))
         else
           (let d = d_sub ops (d_mul ops (d_of_int ops b) (d_of_int ops b))
                      (d_mul ops (d_mul ops (d_lit ops 4 0) (d_of_int ops a)) (d_of_int ops c));
                answer =
                  (if d_less ops d (d_neg ops (epsilon ops)) then answer @ ''no roots''
                   else if d_less ops (d_abs ops d) (epsilon ops) then
                     let x = d_div ops (d_of_int ops (int_neg b))
                               (d_mul ops (d_lit ops 2 0) (d_of_int ops a))
                     in answer @ format_buf (''('' @ d_fmt_g6 ops (decorate_float ops x) @ '')'')
                   else
                     let d_sqrt = d_sqrt ops d;
                         b_sign = (if b < 0 then - 1 else 1);
                         temp = d_mul ops (d_neg ops (d_lit ops 5 (- 1)))
                                  (d_add ops (d_of_int ops b) (d_mul ops (d_of_int ops b_sign) d_sqrt));
                         x1 = d_div ops (d_of_int ops c) temp;
                         x2 = d_div ops temp (d_of_int ops a)
                     in answer @ format_buf (''('' @ d_fmt_g6 ops (decorate_float ops x1) @ '' ''
                                               @ d_fmt_g6 ops (decorate_float ops x2) @ '')''));
                x_extremum = d_div ops (d_of_int ops (int_neg b))
                               (d_mul ops (d_lit ops 2 0) (d_of_int ops a))
            in Inr (answer @ format_buf ('' X'' @ (if 0 < a then ''min'' else ''max'') @ ''=''
                                          @ d_fmt_g6 ops (decorate_float ops x_extremum)))))"

section \<open>The worker pool of worker\_pool.hpp, worker\_pool.cpp and main.cpp\<close>

subsection \<open>Data\<close>

text \<open>
  The threads of the program: the main thread, which reads the input and submits jobs,
  the printer thread, which collects and prints the answers, and the thread of the
  worker at each index of \<open>workers\<close>.
\<close>

datatype thread = Main | Printer | Wk nat

text \<open>
  \<open>Job::JobRequest\<close> is a tuple of the function, its arguments and the promise. A promise
  and its future share one cell; both are the index of this cell in \<open>cells\<close>. A job
  function may throw: \<open>Inl e\<close> is the exception \<open>e\<close> leaving it.
\<close>

type_synonym JobResult = string
type_synonym JobArgs = "string \<times> string \<times> string"
type_synonym 'e JobFunc = "string \<Rightarrow> string \<Rightarrow> string \<Rightarrow> 'e + JobResult"
type_synonym 'e JobRequest = "'e JobFunc \<times> JobArgs \<times> nat"

definition func :: "'e JobRequest \<Rightarrow> 'e JobFunc" where
  "func request = fst request"

definition args :: "'e JobRequest \<Rightarrow> JobArgs" where
  "args request = fst (snd request)"

definition promise :: "'e JobRequest \<Rightarrow> nat" where
  "promise request = snd (snd request)"

text \<open>\<open>std::apply(func, args)\<close>.\<close>

definition std_apply :: "'e JobFunc \<Rightarrow> JobArgs \<Rightarrow> 'e + JobResult" where
  "std_apply f a = (case a of (x, y, z) \<Rightarrow> f x y z)"

text \<open>
  Where a thread stands in its code. \<open>Worker::operator()\<close>, one value per statement:
  the \<open>unique_lock\<close> is taken (\<open>W_Lock\<close>), \<open>cv.wait\<close> tests its predicate (\<open>W_Pred\<close>) and, when
  it is false, releases the mutex and blocks in one step (\<open>W_Wait\<close>, then \<open>W_Blocked\<close>);
  a notified thread takes the mutex again (\<open>W_Reacquire\<close>) and tests the predicate again.
  Then come the test that leaves the loop (\<open>W_Check\<close>), the move of the front job out of
  the queue (\<open>W_Take\<close>), \<open>l.unlock()\<close> (\<open>W_Unlock\<close>) and \<open>promise.set_value(std::apply(func, args))\<close>
  (\<open>W_Apply\<close>). \<open>W_Done\<close> is the thread function returned; \<open>W_Crashed\<close> is an exception
  leaving the thread function (thrown by the job or by \<open>set_value\<close> on a promise that is
  already set), or \<open>front()\<close> of an empty queue. The program ends there; here only
  that thread stops, so that every behaviour of the program is one of the model.
\<close>

datatype 'e worker_pc =
    W_Lock | W_Pred | W_Wait | W_Blocked | W_Reacquire | W_Check | W_Take
  | W_Unlock "'e JobRequest" | W_Apply "'e JobRequest" | W_Done | W_Crashed

record 'e Worker =
  w_stop_flag :: bool
  w_pc :: "'e worker_pc"

text \<open>
  The main thread: the reading loop of \<open>main\<close> (\<open>M_Read\<close>), the statements of
  \<open>WorkerPool::set_job\<close> (\<open>S_...\<close>), of \<open>WorkerPool::stop\<close> (\<open>T_...\<close>), \<open>printer.join()\<close>
  (\<open>M_Join\<close>), the body of \<open>~WorkerPool\<close> (\<open>D_Stop i\<close> is the loop at worker \<open>i\<close>, then
  \<open>D_Notify\<close>) and the destruction of the member \<open>workers\<close>, where \<open>~Worker\<close> joins the
  thread of each worker (\<open>D_Join i\<close>).
\<close>

datatype 'e main_pc =
    M_Read
  | S_Promise "'e JobFunc" JobArgs
  | S_LockR "'e JobRequest" | S_PushR "'e JobRequest" | S_UnlockR "'e JobRequest"
  | S_NotifyR "'e JobRequest"
  | S_LockJ "'e JobRequest" | S_PushJ "'e JobRequest" | S_UnlockJ | S_NotifyJ
  | T_Store | T_Notify
  | M_Join
  | D_Stop nat | D_Notify | D_Join nat
  | M_Exit

text \<open>
  The printer thread: the statements of \<open>WorkerPool::get_answer\<close> (\<open>G_...\<close>; \<open>G_Get p\<close> is
  \<open>result.get()\<close> on the future \<open>p\<close>), then the loop of the printer with the value
  \<open>get_answer\<close> returned (\<open>P_Got\<close>).
\<close>

datatype printer_pc =
    G_Lock | G_Pred | G_Wait | G_Blocked | G_Reacquire | G_Check | G_Take
  | G_Unlock nat | G_Get nat
  | P_Got "JobResult option" | P_Done | P_Crashed

text \<open>
  The members of \<open>WorkerPool\<close> (the two condition variables are the threads at
  \<open>W_Blocked\<close> and \<open>G_Blocked\<close>), the cells of the promises, and the two streams of \<open>main\<close>: \<open>cin\<close>
  holds the groups of three tokens still to read, each with the function submitted for
  it, and \<open>cout\<close> the lines the printer thread has written so far. The line that the
  constructor of the pool writes through \<open>SafeCout\<close> is left out.
\<close>

record 'e state =
  results :: "nat list"
  jobs :: "'e JobRequest list"
  m_jobs :: "thread option"
  m_results :: "thread option"
  workers :: "'e Worker list"
  stop_flag :: bool
  cells :: "JobResult option list"
  main_pc :: "'e main_pc"
  cin :: "('e JobFunc \<times> JobArgs) list"
  printer_pc :: printer_pc
  cout :: "JobResult list"

subsection \<open>Construction\<close>

text \<open>
  \<open>const unsigned int WorkerPool::nthreads = std::thread::hardware_concurrency()\<close>; the
  value the host reports is a parameter.
\<close>

definition nthreads :: "32 word \<Rightarrow> 32 word" where
  "nthreads hardware_concurrency = hardware_concurrency"

text \<open>
  \<open>WorkerPool(unsigned num_threads = nthreads)\<close>: \<open>None\<close> is the call without an argument.
  Each worker starts its thread in its constructor.
\<close>

definition WorkerPool ::
  "32 word \<Rightarrow> 32 word option \<Rightarrow> ('e JobFunc \<times> JobArgs) list \<Rightarrow> 'e state" where
  "WorkerPool hardware_concurrency num_threads inp =
    (let n = (case num_threads of None \<Rightarrow> nthreads hardware_concurrency | Some k \<Rightarrow> k)
     in \<lparr> results = [], jobs = [], m_jobs = None, m_results = None,
          workers = replicate (unat n) \<lparr> w_stop_flag = False, w_pc = W_Lock \<rparr>,
          stop_flag = False, cells = [],
          main_pc = M_Read, cin = inp, printer_pc = G_Lock, cout = [] \<rparr>)"

text \<open>\<open>main\<close> constructs \<open>WorkerPool worker_pool(WorkerPool::nthreads - 2)\<close>.\<close>

definition main :: "32 word \<Rightarrow> ('e JobFunc \<times> JobArgs) list \<Rightarrow> 'e state" where
  "main hardware_concurrency inp =
     WorkerPool hardware_concurrency (Some (nthreads hardware_concurrency - 2)) inp"

subsection \<open>Condition variables\<close>

definition is_blocked :: "'e Worker \<Rightarrow> bool" where
  "is_blocked w = (case w_pc w of W_Blocked \<Rightarrow> True | _ \<Rightarrow> False)"

definition blocked_workers :: "'e state \<Rightarrow> nat list" where
  "blocked_workers s = filter (\<lambda>i. is_blocked (workers s ! i)) [0..<length (workers s)]"

definition wake :: "'e Worker \<Rightarrow> 'e Worker" where
  "wake w = (if is_blocked w then w\<lparr>w_pc := W_Reacquire\<rparr> else w)"

text \<open>
  \<open>cv_jobs.notify_one()\<close>: with no thread waiting nothing happens, otherwise one of the
  waiting threads, \<open>c\<close>, is unblocked. Which one is not determined: every choice of a
  blocked \<open>c\<close> is a behaviour, and no other \<open>c\<close> is.
\<close>

definition notify_one_jobs :: "nat \<Rightarrow> 'e state \<Rightarrow> 'e state option" where
  "notify_one_jobs c s =
    (if blocked_workers s = [] then Some s
     else if c \<in> set (blocked_workers s)
       then Some (s\<lparr>workers := (workers s)[c := wake (workers s ! c)]\<rparr>)
       else None)"

text \<open>\<open>cv_jobs.notify_all()\<close>.\<close>

definition notify_all_jobs :: "'e state \<Rightarrow> 'e state" where
  "notify_all_jobs s = s\<lparr>workers := map wake (workers s)\<rparr>"

text \<open>
  \<open>cv_results.notify_one()\<close> and \<open>cv_results.notify_all()\<close>: the printer is the one thread
  that ever waits on \<open>cv_results\<close>.
\<close>

definition notify_results :: "'e state \<Rightarrow> 'e state" where
  "notify_results s =
    (case printer_pc s of G_Blocked \<Rightarrow> s\<lparr>printer_pc := G_Reacquire\<rparr> | _ \<Rightarrow> s)"

subsection \<open>The steps of the threads\<close>

text \<open>
  One step of a thread is one statement; \<open>None\<close> says that the thread cannot move in
  this state (it waits for a mutex, a notification, a future or a thread to join, or
  it has ended).
\<close>

definition set_worker :: "nat \<Rightarrow> 'e worker_pc \<Rightarrow> 'e state \<Rightarrow> 'e state" where
  "set_worker i pc s = s\<lparr>workers := (workers s)[i := (workers s ! i)\<lparr>w_pc := pc\<rparr>]\<rparr>"

text \<open>\<open>Worker::operator()\<close> of the worker at index \<open>i\<close>.\<close>

definition worker_step :: "nat \<Rightarrow> 'e state \<Rightarrow> 'e state option" where
  "worker_step i s =
    (if length (workers s) \<le> i then None
     else case w_pc (workers s ! i) of
       W_Lock \<Rightarrow>
         (case m_jobs s of None \<Rightarrow> Some (set_worker i W_Pred (s\<lparr>m_jobs := Some (Wk i)\<rparr>))
          | Some _ \<Rightarrow> None)
     | W_Pred \<Rightarrow>
         Some (set_worker i
           (if w_stop_flag (workers s ! i) \<or> jobs s \<noteq> [] then W_Check else W_Wait) s)
     | W_Wait \<Rightarrow> Some (set_worker i W_Blocked (s\<lparr>m_jobs := None\<rparr>))
     | W_Blocked \<Rightarrow> None
     | W_Reacquire \<Rightarrow>
         (case m_jobs s of None \<Rightarrow> Some (set_worker i W_Pred (s\<lparr>m_jobs := Some (Wk i)\<rparr>))
          | Some _ \<Rightarrow> None)
     | W_Check \<Rightarrow>
         (if w_stop_flag (workers s ! i) \<and> jobs s = []
          then Some (set_worker i W_Done (s\<lparr>m_jobs := None\<rparr>))
          else Some (set_worker i W_Take s))
     | W_Take \<Rightarrow>
         (case jobs s of [] \<Rightarrow> Some (set_worker i W_Crashed s)
          | job # rest \<Rightarrow> Some (set_worker i (W_Unlock job) (s\<lparr>jobs := rest\<rparr>)))
     | W_Unlock job \<Rightarrow> Some (set_worker i (W_Apply job) (s\<lparr>m_jobs := None\<rparr>))
     | W_Apply job \<Rightarrow>
         (case std_apply (func job) (args job) of
            Inl e \<Rightarrow> Some (set_worker i W_Crashed s)
          | Inr v \<Rightarrow>
              if promise job < length (cells s) \<and> cells s ! promise job = None
              then Some (set_worker i W_Lock (s\<lparr>cells := (cells s)[promise job := Some v]\<rparr>))
              else Some (set_worker i W_Crashed s))
     | W_Done \<Rightarrow> None
     | W_Crashed \<Rightarrow> None)"

text \<open>
  The main thread. The argument \<open>c\<close> is the worker that \<open>cv_jobs.notify_one()\<close> unblocks,
  should the step be that statement.
\<close>

definition main_step :: "nat \<Rightarrow> 'e state \<Rightarrow> 'e state option" where
  "main_step c s =
    (case main_pc s of
       M_Read \<Rightarrow>
         (case cin s of [] \<Rightarrow> Some (s\<lparr>main_pc := T_Store\<rparr>)
          | (f, a) # rest \<Rightarrow> Some (s\<lparr>cin := rest, main_pc := S_Promise f a\<rparr>))
     | S_Promise f a \<Rightarrow>
         Some (s\<lparr>cells := cells s @ [None], main_pc := S_LockR (f, a, length (cells s))\<rparr>)
     | S_LockR job \<Rightarrow>
         (case m_results s of None \<Rightarrow> Some (s\<lparr>m_results := Some Main, main_pc := S_PushR job\<rparr>)
          | Some _ \<Rightarrow> None)
     | S_PushR job \<Rightarrow> Some (s\<lparr>results := results s @ [promise job], main_pc := S_UnlockR job\<rparr>)
     | S_UnlockR job \<Rightarrow> Some (s\<lparr>m_results := None, main_pc := S_NotifyR job\<rparr>)
     | S_NotifyR job \<Rightarrow> Some ((notify_results s)\<lparr>main_pc := S_LockJ job\<rparr>)
     | S_LockJ job \<Rightarrow>
         (case m_jobs s of None \<Rightarrow> Some (s\<lparr>m_jobs := Some Main, main_pc := S_PushJ job\<rparr>)
          | Some _ \<Rightarrow> None)
     | S_PushJ job \<Rightarrow> Some (s\<lparr>jobs := jobs s @ [job], main_pc := S_UnlockJ\<rparr>)
     | S_UnlockJ \<Rightarrow> Some (s\<lparr>m_jobs := None, main_pc := S_NotifyJ\<rparr>)
     | S_NotifyJ \<Rightarrow>
         (case notify_one_jobs c s of None \<Rightarrow> None
          | Some s' \<Rightarrow> Some (s'\<lparr>main_pc := M_Read\<rparr>))
     | T_Store \<Rightarrow> Some (s\<lparr>stop_flag := True, main_pc := T_Notify\<rparr>)
     | T_Notify \<Rightarrow> Some ((notify_results s)\<lparr>main_pc := M_Join\<rparr>)
     | M_Join \<Rightarrow>
         (case printer_pc s of P_Done \<Rightarrow> Some (s\<lparr>main_pc := D_Stop 0\<rparr>) | _ \<Rightarrow> None)
     | D_Stop i \<Rightarrow>
         (if i < length (workers s)
          then Some (s\<lparr>workers := (workers s)[i := (workers s ! i)\<lparr>w_stop_flag := True\<rparr>],
                       main_pc := D_Stop (Suc i)\<rparr>)
          else Some (s\<lparr>main_pc := D_Notify\<rparr>))
     | D_Notify \<Rightarrow> Some ((notify_all_jobs s)\<lparr>main_pc := D_Join 0\<rparr>)
     | D_Join i \<Rightarrow>
         (if i < length (workers s)
          then (case w_pc (workers s ! i) of W_Done \<Rightarrow> Some (s\<lparr>main_pc := D_Join (Suc i)\<rparr>)
                | _ \<Rightarrow> None)
          else Some (s\<lparr>main_pc := M_Exit\<rparr>))
     | M_Exit \<Rightarrow> None)"

text \<open>
  \<open>WorkerPool::stop\<close> as one function: \<open>stop_flag.store(true)\<close>, then
  \<open>cv_results.notify_all()\<close>. These are the two steps \<open>T_Store\<close> and \<open>T_Notify\<close> of the main
  thread.
\<close>

definition stop :: "'e state \<Rightarrow> 'e state" where
  "stop s = notify_results (s\<lparr>stop_flag := True\<rparr>)"

text \<open>The printer thread: \<open>get_answer\<close> in the loop of the lambda in \<open>main\<close>.\<close>

definition printer_step :: "'e state \<Rightarrow> 'e state option" where
  "printer_step s =
    (case printer_pc s of
       G_Lock \<Rightarrow>
         (case m_results s of None \<Rightarrow> Some (s\<lparr>m_results := Some Printer, printer_pc := G_Pred\<rparr>)
          | Some _ \<Rightarrow> None)
     | G_Pred \<Rightarrow>
         Some (s\<lparr>printer_pc := (if results s \<noteq> [] \<or> stop_flag s then G_Check else G_Wait)\<rparr>)
     | G_Wait \<Rightarrow> Some (s\<lparr>m_results := None, printer_pc := G_Blocked\<rparr>)
     | G_Blocked \<Rightarrow> None
     | G_Reacquire \<Rightarrow>
         (case m_results s of None \<Rightarrow> Some (s\<lparr>m_results := Some Printer, printer_pc := G_Pred\<rparr>)
          | Some _ \<Rightarrow> None)
     | G_Check \<Rightarrow>
         (if stop_flag s \<and> results s = []
          then Some (s\<lparr>m_results := None, printer_pc := P_Got None\<rparr>)
          else Some (s\<lparr>printer_pc := G_Take\<rparr>))
     | G_Take \<Rightarrow>
         (case results s of [] \<Rightarrow> Some (s\<lparr>printer_pc := P_Crashed\<rparr>)
          | p # rest \<Rightarrow> Some (s\<lparr>results := rest, printer_pc := G_Unlock p\<rparr>))
     | G_Unlock p \<Rightarrow> Some (s\<lparr>m_results := None, printer_pc := G_Get p\<rparr>)
     | G_Get p \<Rightarrow>
         (if p < length (cells s)
          then (case cells s ! p of None \<Rightarrow> None
                | Some v \<Rightarrow> Some (s\<lparr>printer_pc := P_Got (Some v)\<rparr>))
          else Some (s\<lparr>printer_pc := P_Crashed\<rparr>))
     | P_Got r \<Rightarrow>
         (case r of None \<Rightarrow> Some (s\<lparr>printer_pc := P_Done\<rparr>)
          | Some v \<Rightarrow> Some (s\<lparr>cout := cout s @ [v], printer_pc := G_Lock\<rparr>))
     | P_Done \<Rightarrow> None
     | P_Crashed \<Rightarrow> None)"

subsection \<open>Executions\<close>

text \<open>
  An action lets one thread make its next step, or wakes a blocked thread without a
  notification, as a condition variable may.
\<close>

datatype action =
    Run_main nat | Run_printer | Run_worker nat | Spurious_printer | Spurious_worker nat

definition exec :: "action \<Rightarrow> 'e state \<Rightarrow> 'e state option" where
  "exec act s =
    (case act of
       Run_main c \<Rightarrow> main_step c s
     | Run_printer \<Rightarrow> printer_step s
     | Run_worker i \<Rightarrow> worker_step i s
     | Spurious_printer \<Rightarrow>
         (case printer_pc s of G_Blocked \<Rightarrow> Some (s\<lparr>printer_pc := G_Reacquire\<rparr>) | _ \<Rightarrow> None)
     | Spurious_worker i \<Rightarrow>
         (if i < length (workers s) \<and> is_blocked (workers s ! i)
          then Some (s\<lparr>workers := (workers s)[i := wake (workers s ! i)]\<rparr>)
          else None))"

fun run :: "action list \<Rightarrow> 'e state \<Rightarrow> 'e state option" where
  "run [] s = Some s"
| "run (act # acts) s = (case exec act s of None \<Rightarrow> None | Some s' \<Rightarrow> run acts s')"

text \<open>The states an execution from \<open>s0\<close> passes through, whatever the schedule.\<close>

inductive reach :: "'e state \<Rightarrow> 'e state \<Rightarrow> bool" for s0 :: "'e state" where
  reach_init: "reach s0 s0"
| reach_step: "reach s0 s \<Longrightarrow> exec act s = Some s' \<Longrightarrow> reach s0 s'"

subsection \<open>Invariants\<close>

text \<open>
  The worker whose thread is at \<open>promise.set_value(std::apply(func, args))\<close>, and the
  property that such a worker does not own the mutex of the job queue.
\<close>

definition applying :: "'e Worker \<Rightarrow> bool" where
  "applying w = (case w_pc w of W_Apply job \<Rightarrow> True | _ \<Rightarrow> False)"

definition unlocked_apply :: "'e state \<Rightarrow> bool" where
  "unlocked_apply s =
     (\<forall>i < length (workers s). applying (workers s ! i) \<longrightarrow> m_jobs s \<noteq> Some (Wk i))"

text \<open>
  The result of the job submitted at position \<open>p\<close>, where \<open>js\<close> is the sequence of the
  jobs in the order of submission.
\<close>

definition result_of :: "('e JobFunc \<times> JobArgs) list \<Rightarrow> nat \<Rightarrow> 'e + JobResult" where
  "result_of js p = (case js ! p of (f, a) \<Rightarrow> std_apply f a)"

text \<open>
  A request is sound when its promise was created (\<open>n\<close> is the number of cells) and the
  job at the position of its promise is the job it carries. This holds of the requests
  in the job queue, of the one a worker has moved out of the queue and of the one
  \<open>set_job\<close> is about to push, whose promise is the last one created.
\<close>

definition job_ok :: "('e JobFunc \<times> JobArgs) list \<Rightarrow> nat \<Rightarrow> 'e JobRequest \<Rightarrow> bool" where
  "job_ok js n job = (promise job < n \<and> js ! promise job = (func job, args job))"

definition worker_ok :: "('e JobFunc \<times> JobArgs) list \<Rightarrow> nat \<Rightarrow> 'e Worker \<Rightarrow> bool" where
  "worker_ok js n w =
    (case w_pc w of W_Unlock job \<Rightarrow> job_ok js n job | W_Apply job \<Rightarrow> job_ok js n job
     | _ \<Rightarrow> True)"

definition main_job :: "'e main_pc \<Rightarrow> 'e JobRequest option" where
  "main_job pc =
    (case pc of S_LockR job \<Rightarrow> Some job | S_PushR job \<Rightarrow> Some job | S_UnlockR job \<Rightarrow> Some job
     | S_NotifyR job \<Rightarrow> Some job | S_LockJ job \<Rightarrow> Some job | S_PushJ job \<Rightarrow> Some job
     | _ \<Rightarrow> None)"

definition main_ok :: "('e JobFunc \<times> JobArgs) list \<Rightarrow> nat \<Rightarrow> 'e main_pc \<Rightarrow> bool" where
  "main_ok js n pc =
    (case main_job pc of None \<Rightarrow> True
     | Some job \<Rightarrow> job_ok js n job \<and> Suc (promise job) = n)"

text \<open>
  The jobs not submitted yet, the number of futures pushed on \<open>results\<close> (all the promises
  created, but the last one while \<open>set_job\<close> has not pushed its future), and the number
  of futures \<open>get_answer\<close> has removed (one more than the lines printed while the printer
  holds a future or its value).
\<close>

definition pending :: "'e main_pc \<Rightarrow> ('e JobFunc \<times> JobArgs) list \<Rightarrow> ('e JobFunc \<times> JobArgs) list" where
  "pending pc rest = (case pc of S_Promise f a \<Rightarrow> (f, a) # rest | _ \<Rightarrow> rest)"

definition pushed :: "'e main_pc \<Rightarrow> nat \<Rightarrow> nat" where
  "pushed pc n = (case pc of S_LockR job \<Rightarrow> n - 1 | S_PushR job \<Rightarrow> n - 1 | _ \<Rightarrow> n)"

definition taken :: "printer_pc \<Rightarrow> nat \<Rightarrow> nat" where
  "taken pc k =
    (case pc of G_Unlock p \<Rightarrow> Suc k | G_Get p \<Rightarrow> Suc k
     | P_Got r \<Rightarrow> (case r of None \<Rightarrow> k | Some v \<Rightarrow> Suc k)
     | _ \<Rightarrow> k)"

text \<open>
  The future the printer holds is the one of the next line to print, and the value it
  got from \<open>get_answer\<close> is the result of the job at that position.
\<close>

definition printer_ok :: "('e JobFunc \<times> JobArgs) list \<Rightarrow> printer_pc \<Rightarrow> nat \<Rightarrow> bool" where
  "printer_ok js pc k =
    (case pc of G_Unlock p \<Rightarrow> p = k | G_Get p \<Rightarrow> p = k
     | P_Got r \<Rightarrow> (case r of None \<Rightarrow> True | Some v \<Rightarrow> result_of js k = Inr v)
     | _ \<Rightarrow> True)"

text \<open>
  The invariant behind the order of the answers: promises are created in the order of
  submission, a cell holds nothing but the result of the job at its position, the result
  queue holds the futures from the first not removed to the last pushed, in order, and
  the lines printed are the results of the first jobs.
\<close>

definition order_inv :: "('e JobFunc \<times> JobArgs) list \<Rightarrow> 'e state \<Rightarrow> bool" where
  "order_inv js s =
    (length (cells s) \<le> length js
     \<and> drop (length (cells s)) js = pending (main_pc s) (cin s)
     \<and> list_all (job_ok js (length (cells s))) (jobs s)
     \<and> list_all (worker_ok js (length (cells s))) (workers s)
     \<and> main_ok js (length (cells s)) (main_pc s)
     \<and> (\<forall>p < length (cells s). \<forall>v. cells s ! p = Some v \<longrightarrow> result_of js p = Inr v)
     \<and> results s = [taken (printer_pc s) (length (cout s))..<pushed (main_pc s) (length (cells s))]
     \<and> taken (printer_pc s) (length (cout s)) \<le> pushed (main_pc s) (length (cells s))
     \<and> pushed (main_pc s) (length (cells s)) \<le> length (cells s)
     \<and> printer_ok js (printer_pc s) (length (cout s))
     \<and> (\<forall>i < length (cout s). result_of js i = Inr (cout s ! i)))"

text \<open>
  What the destructors have done, by the place of the main thread in them: the loop of
  \<open>~WorkerPool\<close> at worker \<open>i\<close> has raised the flag of every worker before \<open>i\<close>; at the
  notification and later every flag is raised; \<open>~Worker\<close> has joined the thread of every
  worker before \<open>i\<close>, which therefore has returned; at the end every thread has.
\<close>

definition shutdown_at :: "'e main_pc \<Rightarrow> 'e Worker list \<Rightarrow> bool" where
  "shutdown_at pc ws =
    (case pc of
       D_Stop i \<Rightarrow> (\<forall>j < length ws. j < i \<longrightarrow> w_stop_flag (ws ! j))
     | D_Notify \<Rightarrow> (\<forall>j < length ws. w_stop_flag (ws ! j))
     | D_Join i \<Rightarrow> (\<forall>j < length ws. w_stop_flag (ws ! j) \<and> (j < i \<longrightarrow> w_pc (ws ! j) = W_Done))
     | M_Exit \<Rightarrow> (\<forall>j < length ws. w_stop_flag (ws ! j) \<and> w_pc (ws ! j) = W_Done)
     | _ \<Rightarrow> True)"

definition shutdown_inv :: "'e state \<Rightarrow> bool" where
  "shutdown_inv s = shutdown_at (main_pc s) (workers s)"

text \<open>
  After \<open>cv_results.wait\<close> in \<open>get_answer\<close> the predicate of the wait holds, and where the
  front of the queue is taken the queue is not empty: the printer is the only thread
  that removes from \<open>results\<close>, and \<open>stop_flag\<close> is never lowered.
\<close>

definition check_at :: "printer_pc \<Rightarrow> nat list \<Rightarrow> bool \<Rightarrow> bool" where
  "check_at pc rs st =
    (case pc of G_Check \<Rightarrow> rs \<noteq> [] \<or> st | G_Take \<Rightarrow> rs \<noteq> [] | _ \<Rightarrow> True)"


subsection \<open>Example executions\<close>

text \<open>
  A job that joins its arguments, two submissions of it, and schedules: the ten steps
  of the main thread for one submission, the five steps of a worker up to the call of
  the job, the seven steps of the printer for one answer, and an execution in which the
  second job is computed before the first.
\<close>

definition echo :: "unit JobFunc" where
  "echo a b c = Inr (a @ b @ c)"

definition two_jobs :: "(unit JobFunc \<times> JobArgs) list" where
  "two_jobs = [(echo, (''a'', ''b'', ''c'')), (echo, (''x'', ''y'', ''z''))]"

definition submit_one :: "action list" where
  "submit_one = [Run_main 0, Run_main 0, Run_main 0, Run_main 0, Run_main 0,
                 Run_main 0, Run_main 0, Run_main 0, Run_main 0, Run_main 0]"

definition take_job :: "nat \<Rightarrow> action list" where
  "take_job i = [Run_worker i, Run_worker i, Run_worker i, Run_worker i, Run_worker i]"

definition collect_one :: "action list" where
  "collect_one = [Run_printer, Run_printer, Run_printer, Run_printer, Run_printer,
                  Run_printer, Run_printer]"

definition out_of_order :: "action list" where
  "out_of_order = submit_one @ submit_one @ take_job 0 @ take_job (Suc 0)
     @ [Run_worker (Suc 0), Run_worker 0] @ collect_one @ collect_one"

text \<open>
  More executions with one worker: no input and one job; the worker blocks, then
  \<open>stop\<close> is called; a whole run of \<open>main\<close> without input; the worker blocks, then a job
  is submitted up to the notification of \<open>set_job\<close>; the worker blocks, then the pool is
  destroyed up to the notification of \<open>~WorkerPool\<close>.
\<close>

definition no_jobs :: "(unit JobFunc \<times> JobArgs) list" where
  "no_jobs = []"

definition one_job :: "(unit JobFunc \<times> JobArgs) list" where
  "one_job = [(echo, (''a'', ''b'', ''c''))]"

definition stop_early :: "action list" where
  "stop_early = [Run_worker 0, Run_worker 0, Run_worker 0, Run_main 0, Run_main 0, Run_main 0]"

definition run_to_exit :: "action list" where
  "run_to_exit = [Run_main 0, Run_main 0, Run_main 0,
     Run_printer, Run_printer, Run_printer, Run_printer,
     Run_main 0, Run_main 0, Run_main 0, Run_main 0,
     Run_worker 0, Run_worker 0, Run_worker 0,
     Run_main 0, Run_main 0]"



section \<open>Properties of the job function\<close>

lemma snprintf_fits:
  "length text < length buf \<Longrightarrow>
   snprintf buf text = (text @ [CHR 0x00] @ drop (Suc (length text)) buf, length text)"
  by (auto simp: snprintf_def Let_def)

lemma resize_prefix: "resize (length t) (t @ r) = t"
  by (simp add: resize_def)

lemma length_cstring: "length (cstring s) \<le> length s"
  by (simp add: cstring_def length_takeWhile_le)

text \<open>
  The buffer of \<open>answer\<close> is ten bytes longer than the three strings together and the
  formatted head needs eight more than them, so \<open>snprintf\<close> never truncates it.
\<close>

lemma answer_head_eq:
  "answer_head a b c = ''('' @ cstring a @ '' '' @ cstring b @ '' '' @ cstring c @ '') => ''"
proof -
  define t where "t = ''('' @ cstring a @ '' '' @ cstring b @ '' '' @ cstring c @ '') => ''"
  define buf where "buf = resize (length a + length b + length c + 10) []"
  have "length t = length (cstring a) + length (cstring b) + length (cstring c) + 8"
    by (simp add: t_def)
  moreover have "length buf = length a + length b + length c + 10"
    by (simp add: buf_def resize_def)
  ultimately have "length t < length buf"
    using length_cstring [of a] length_cstring [of b] length_cstring [of c] by linarith
  then have "snprintf buf t = (t @ [CHR 0x00] @ drop (Suc (length t)) buf, length t)"
    by (rule snprintf_fits)
  then have "answer_head a b c = resize (length t) (t @ [CHR 0x00] @ drop (Suc (length t)) buf)"
    unfolding answer_head_def Let_def t_def [symmetric] buf_def [symmetric] by simp
  then show ?thesis
    unfolding t_def [symmetric] by (simp only: resize_prefix)
qed

lemmas stoi_eval = stoi_def cstring_def isspace_def isdigit_def digits_value_def
  digit_value_def INT_MIN_def INT_MAX_def

lemma stoi_abc: "stoi ''abc'' = Inl invalid_argument"
  by (simp add: stoi_eval)

lemma stoi_big: "stoi ''99999999999'' = Inl out_of_range"
  by (simp add: stoi_eval)

lemma stoi_0: "stoi ''0'' = Inr 0"
  by (simp add: stoi_eval)

lemma stoi_1: "stoi ''1'' = Inr 1"
  by (simp add: stoi_eval)

lemma stoi_2: "stoi ''2'' = Inr 2"
  by (simp add: stoi_eval)

lemma stoi_5: "stoi ''5'' = Inr 5"
  by (simp add: stoi_eval)

lemma stoi_m4: "stoi ''-4'' = Inr (- 4)"
  by (simp add: stoi_eval)

lemma try_stoi_Inl:
  "isl (stoi a_str) \<or> isl (stoi b_str) \<or> isl (stoi c_str) \<Longrightarrow> isl (try_stoi a_str b_str c_str)"
  by (auto simp: try_stoi_def split: sum.splits)

lemma calculate_square_roots_Inl:
  "try_stoi a_str b_str c_str = Inl e \<Longrightarrow>
   calculate_square_roots ops a_str b_str c_str =
     Inr (answer_head a_str b_str c_str @
       (case e of invalid_argument \<Rightarrow> ''invalid argument'' | out_of_range \<Rightarrow> ''out of range''))"
  by (cases e) (simp_all add: calculate_square_roots_def)

lemma calculate_square_roots_returns:
  "\<exists>s. calculate_square_roots ops a_str b_str c_str = Inr s"
proof (cases "try_stoi a_str b_str c_str")
  case (Inl e)
  then show ?thesis by (simp add: calculate_square_roots_Inl)
next
  case (Inr t)
  obtain a b c where t: "t = (a, b, c)" by (cases t) auto
  show ?thesis
    unfolding calculate_square_roots_def Let_def Inr t by simp
qed

text \<open>
  C8: for every triple of strings \<open>calculate_square_roots\<close> returns a string and no
  exception leaves it; when one of the three conversions fails, the string returned is
  the head \<open>"(a b c) => "\<close> followed by \<open>"invalid argument"\<close> or by \<open>"out of range"\<close>.
\<close>

theorem calculate_square_roots_absorbs:
  "(\<exists>s. calculate_square_roots ops a_str b_str c_str = Inr s) \<and>
   (isl (stoi a_str) \<or> isl (stoi b_str) \<or> isl (stoi c_str) \<longrightarrow>
      calculate_square_roots ops a_str b_str c_str =
        Inr (''('' @ cstring a_str @ '' '' @ cstring b_str @ '' '' @ cstring c_str @ '') => ''
             @ ''invalid argument'') \<or>
      calculate_square_roots ops a_str b_str c_str =
        Inr (''('' @ cstring a_str @ '' '' @ cstring b_str @ '' '' @ cstring c_str @ '') => ''
             @ ''out of range''))"
proof (intro conjI impI)
  show "\<exists>s. calculate_square_roots ops a_str b_str c_str = Inr s"
    by (rule calculate_square_roots_returns)
next
  assume "isl (stoi a_str) \<or> isl (stoi b_str) \<or> isl (stoi c_str)"
  then have "isl (try_stoi a_str b_str c_str)" by (rule try_stoi_Inl)
  then obtain e where e: "try_stoi a_str b_str c_str = Inl e" by (auto simp: isl_def)
  show "calculate_square_roots ops a_str b_str c_str =
        Inr (''('' @ cstring a_str @ '' '' @ cstring b_str @ '' '' @ cstring c_str @ '') => ''
             @ ''invalid argument'') \<or>
      calculate_square_roots ops a_str b_str c_str =
        Inr (''('' @ cstring a_str @ '' '' @ cstring b_str @ '' '' @ cstring c_str @ '') => ''
             @ ''out of range'')"
    unfolding calculate_square_roots_Inl [OF e] answer_head_eq by (cases e) simp_all
qed

text \<open>
  The theorem at \<open>("1", "99999999999", "abc")\<close>: the second conversion is out of range,
  which ends the \<open>try\<close> block before the third string is looked at.
\<close>

theorem calculate_square_roots_absorbs_witness:
  "\<forall>ops :: 'd double_ops.
     isl (stoi ''99999999999'') \<and>
     calculate_square_roots ops ''1'' ''99999999999'' ''abc'' = Inr ''(1 99999999999 abc) => out of range''"
proof
  fix ops :: "'d double_ops"
  have "try_stoi ''1'' ''99999999999'' ''abc'' = Inl out_of_range"
    by (simp add: try_stoi_def stoi_big stoi_1)
  then have "calculate_square_roots ops ''1'' ''99999999999'' ''abc'' \<noteq>
      Inr (''('' @ cstring ''1'' @ '' '' @ cstring ''99999999999'' @ '' '' @ cstring ''abc'' @ '') => ''
             @ ''invalid argument'')"
    by (simp add: calculate_square_roots_Inl answer_head_eq)
  with calculate_square_roots_absorbs [of ops "''1''" "''99999999999''" "''abc''"]
  show "isl (stoi ''99999999999'') \<and>
     calculate_square_roots ops ''1'' ''99999999999'' ''abc'' = Inr ''(1 99999999999 abc) => out of range''"
    by (simp add: stoi_big cstring_def)
qed

text \<open>
  C10, as the code has it: when the first two strings convert to \<open>0\<close> and \<open>0\<close> and the
  third converts to any integer, zero or not, the answer is \<open>"(x \<in> R)"\<close> after the head;
  when the third string does not convert, the answer is the text of that failure.
\<close>

theorem any_x_when_a_b_zero:
  assumes "stoi a_str = Inr 0" and "stoi b_str = Inr 0"
  shows "calculate_square_roots ops a_str b_str c_str =
     Inr (''('' @ cstring a_str @ '' '' @ cstring b_str @ '' '' @ cstring c_str @ '') => '' @
       (case stoi c_str of
          Inr c \<Rightarrow> x_in_R
        | Inl e \<Rightarrow> (case e of invalid_argument \<Rightarrow> ''invalid argument''
                     | out_of_range \<Rightarrow> ''out of range'')))"
proof (cases "stoi c_str")
  case (Inl e)
  with assms have "try_stoi a_str b_str c_str = Inl e" by (simp add: try_stoi_def)
  then show ?thesis by (simp add: calculate_square_roots_Inl answer_head_eq Inl)
next
  case (Inr c)
  with assms have "try_stoi a_str b_str c_str = Inr (0, 0, c)" by (simp add: try_stoi_def)
  then show ?thesis by (simp add: calculate_square_roots_def answer_head_eq Inr)
qed

theorem any_x_when_a_b_zero_witness:
  "\<forall>ops :: 'd double_ops.
     stoi ''0'' = Inr 0 \<and> stoi ''5'' = Inr 5 \<and>
     calculate_square_roots ops ''0'' ''0'' ''5'' = Inr (''(0 0 5) => '' @ x_in_R)"
proof
  fix ops :: "'d double_ops"
  show "stoi ''0'' = Inr 0 \<and> stoi ''5'' = Inr 5 \<and>
     calculate_square_roots ops ''0'' ''0'' ''5'' = Inr (''(0 0 5) => '' @ x_in_R)"
    using any_x_when_a_b_zero [OF stoi_0 stoi_0, of ops "''5''"]
    by (simp add: stoi_0 stoi_5 cstring_def)
qed

text \<open>
  C10 as stated fails at \<open>("0", "0", "abc")\<close>: the first two strings convert to \<open>0\<close>, and
  the answer is \<open>"invalid argument"\<close>, not \<open>"(x \<in> R)"\<close>.
\<close>

theorem any_x_unparsed_c_counterexample:
  "\<forall>ops :: 'd double_ops.
     stoi ''0'' = Inr 0 \<and>
     calculate_square_roots ops ''0'' ''0'' ''abc'' = Inr ''(0 0 abc) => invalid argument'' \<and>
     calculate_square_roots ops ''0'' ''0'' ''abc'' \<noteq> Inr (''(0 0 abc) => '' @ x_in_R)"
proof -
  have "try_stoi ''0'' ''0'' ''abc'' = Inl invalid_argument"
    by (simp add: try_stoi_def stoi_0 stoi_abc)
  then show ?thesis
    by (simp add: calculate_square_roots_Inl answer_head_eq stoi_0 cstring_def x_in_R_def)
qed

text \<open>
  C5, the second and third answers of the scenario as the code computes them. For
  \<open>("0", "2", "-4")\<close>, the equation \<open>2x - 4 = 0\<close>, the number printed is \<open>b / c\<close>, that is
  \<open>2 / -4\<close>, and not the root \<open>2\<close>. For \<open>("0", "0", "5")\<close>, the equation \<open>5 = 0\<close>, the answer
  is \<open>"(x \<in> R)"\<close>.
\<close>

theorem linear_branch_outputs:
  "calculate_square_roots ops ''0'' ''2'' ''-4'' =
     Inr (''(0 2 -4) => '' @ format_buf (''('' @
        d_fmt_g6 ops (decorate_float ops (d_div ops (d_of_int ops 2) (d_of_int ops (- 4))))
        @ '')'')) \<and>
   calculate_square_roots ops ''0'' ''0'' ''5'' = Inr (''(0 0 5) => '' @ x_in_R)"
proof -
  have "try_stoi ''0'' ''2'' ''-4'' = Inr (0, 2, - 4)"
    by (simp add: try_stoi_def stoi_0 stoi_2 stoi_m4)
  moreover have "try_stoi ''0'' ''0'' ''5'' = Inr (0, 0, 5)"
    by (simp add: try_stoi_def stoi_0 stoi_5)
  ultimately show ?thesis
    by (simp add: calculate_square_roots_def answer_head_eq cstring_def)
qed

section \<open>Properties of the pool\<close>

subsection \<open>Executions\<close>

lemma run_append:
  "run (xs @ ys) s = (case run xs s of None \<Rightarrow> None | Some s' \<Rightarrow> run ys s')"
  by (induction xs arbitrary: s) (auto split: option.splits)

lemma run_reach: "run acts s = Some s' \<Longrightarrow> reach s0 s \<Longrightarrow> reach s0 s'"
  by (induction acts arbitrary: s) (auto split: option.splits intro: reach_step)

lemma pool_of_two:
  "WorkerPool hc (Some 2) inp =
    \<lparr> results = [], jobs = [], m_jobs = None, m_results = None,
      workers = [\<lparr> w_stop_flag = False, w_pc = W_Lock \<rparr>, \<lparr> w_stop_flag = False, w_pc = W_Lock \<rparr>],
      stop_flag = False, cells = [],
      main_pc = M_Read, cin = inp, printer_pc = G_Lock, cout = [] \<rparr>"
proof -
  have "replicate (unat (2 :: 32 word)) w = [w, w]" for w :: "'e Worker"
  proof -
    have "unat (2 :: 32 word) = Suc (Suc 0)" by simp
    then show ?thesis by (simp only: replicate.simps)
  qed
  then show ?thesis by (simp add: WorkerPool_def)
qed

lemma pool_of_one:
  "WorkerPool hc (Some 1) inp =
    \<lparr> results = [], jobs = [], m_jobs = None, m_results = None,
      workers = [\<lparr> w_stop_flag = False, w_pc = W_Lock \<rparr>],
      stop_flag = False, cells = [],
      main_pc = M_Read, cin = inp, printer_pc = G_Lock, cout = [] \<rparr>"
  by (simp add: WorkerPool_def)

subsection \<open>The number of workers\<close>

text \<open>
  C9, as the code has it: constructed without a count, the pool starts as many workers
  as the host reports hardware threads, \<open>nthreads\<close> itself; \<open>main\<close> does not use the
  default and passes \<open>nthreads - 2\<close>, computed in \<open>unsigned int\<close>.
\<close>

theorem default_worker_count:
  "length (workers (WorkerPool hardware_concurrency None inp)) = unat hardware_concurrency \<and>
   length (workers (main hardware_concurrency inp)) = unat (hardware_concurrency - 2)"
  by (simp add: WorkerPool_def main_def nthreads_def)

text \<open>
  C9 as stated fails on a host with four hardware threads: the default is four workers,
  not three.
\<close>

theorem default_worker_count_counterexample:
  "length (workers (WorkerPool 4 None [] :: unit state)) = 4 \<and>
   length (workers (WorkerPool 4 None [] :: unit state)) \<noteq> 4 - 1"
  by (simp add: WorkerPool_def nthreads_def)

subsection \<open>The mutex of the job queue is released before a job is called\<close>

lemmas step_defs = exec_def main_step_def printer_step_def worker_step_def set_worker_def
  notify_results_def notify_one_jobs_def notify_all_jobs_def blocked_workers_def is_blocked_def
  wake_def

lemma applying_wake [simp]: "applying (wake w) = applying w"
  by (simp add: applying_def wake_def is_blocked_def split: worker_pc.splits)

lemma applying_stop [simp]: "applying (w\<lparr>w_stop_flag := b\<rparr>) = applying w"
  by (simp add: applying_def)

lemma nth_update_at:
  "xs[c := x] ! i = (if i = c \<and> c < length xs then x else xs ! i)"
  by (cases "c < length xs") (auto simp: nth_list_update list_update_beyond not_less)

lemma applying_update_wake [simp]:
  "applying (ws[c := wake (ws ! c)] ! i) = applying (ws ! i)"
  by (simp add: nth_update_at)

lemma applying_update_stop [simp]:
  "applying (ws[c := (ws ! c)\<lparr>w_stop_flag := b\<rparr>] ! i) = applying (ws ! i)"
  by (simp add: nth_update_at)

lemma unlocked_apply_main:
  "unlocked_apply s \<Longrightarrow> main_step c s = Some s' \<Longrightarrow> unlocked_apply s'"
  unfolding main_step_def unlocked_apply_def
  by (auto simp: notify_results_def notify_one_jobs_def notify_all_jobs_def
      split: main_pc.splits list.splits option.splits if_splits printer_pc.splits worker_pc.splits)

lemma unlocked_apply_printer:
  "unlocked_apply s \<Longrightarrow> printer_step s = Some s' \<Longrightarrow> unlocked_apply s'"
  unfolding printer_step_def unlocked_apply_def
  by (auto split: printer_pc.splits list.splits option.splits if_splits)

lemma unlocked_apply_worker:
  "unlocked_apply s \<Longrightarrow> worker_step k s = Some s' \<Longrightarrow> unlocked_apply s'"
  unfolding worker_step_def unlocked_apply_def set_worker_def
  by (auto simp: nth_list_update applying_def
      split: worker_pc.splits list.splits option.splits if_splits sum.splits)

lemma unlocked_apply_exec:
  "unlocked_apply s \<Longrightarrow> exec act s = Some s' \<Longrightarrow> unlocked_apply s'"
proof (cases act)
  case (Run_main c)
  then show "unlocked_apply s \<Longrightarrow> exec act s = Some s' \<Longrightarrow> unlocked_apply s'"
    by (simp add: exec_def unlocked_apply_main)
next
  case Run_printer
  then show "unlocked_apply s \<Longrightarrow> exec act s = Some s' \<Longrightarrow> unlocked_apply s'"
    by (simp add: exec_def unlocked_apply_printer)
next
  case (Run_worker k)
  then show "unlocked_apply s \<Longrightarrow> exec act s = Some s' \<Longrightarrow> unlocked_apply s'"
    by (simp add: exec_def unlocked_apply_worker)
next
  case Spurious_printer
  then show "unlocked_apply s \<Longrightarrow> exec act s = Some s' \<Longrightarrow> unlocked_apply s'"
    by (auto simp: exec_def unlocked_apply_def split: printer_pc.splits)
next
  case (Spurious_worker k)
  then show "unlocked_apply s \<Longrightarrow> exec act s = Some s' \<Longrightarrow> unlocked_apply s'"
    by (auto simp: exec_def unlocked_apply_def split: if_splits)
qed

lemma unlocked_apply_reach:
  "reach s0 s \<Longrightarrow> unlocked_apply s0 \<Longrightarrow> unlocked_apply s"
  by (induction rule: reach.induct) (auto intro: unlocked_apply_exec)

lemma unlocked_apply_init: "unlocked_apply (WorkerPool hc nt inp)"
  by (simp add: unlocked_apply_def WorkerPool_def applying_def Let_def)

text \<open>
  C7: in every state an execution reaches, a worker that is at
  \<open>promise.set_value(std::apply(func, args))\<close> does not own \<open>m_jobs\<close>; the only step that
  leads there is \<open>l.unlock()\<close>.
\<close>

theorem worker_applies_unlocked:
  "reach (WorkerPool hc nt inp) s \<Longrightarrow> i < length (workers s) \<Longrightarrow>
   w_pc (workers s ! i) = W_Apply job \<Longrightarrow> m_jobs s \<noteq> Some (Wk i)"
  using unlocked_apply_reach [OF _ unlocked_apply_init, of hc nt inp s]
  by (simp add: unlocked_apply_def applying_def)

lemmas run_eval = step_defs std_apply_def func_def args_def promise_def

lemma take_job_run:
  "map_option (\<lambda>s. (workers s, m_jobs s))
     (run (submit_one @ take_job 0) (WorkerPool 4 (Some 1) [(echo, (''a'', ''b'', ''c''))])) =
   Some ([\<lparr> w_stop_flag = False, w_pc = W_Apply (echo, (''a'', ''b'', ''c''), 0) \<rparr>], None)"
  unfolding pool_of_one submit_one_def take_job_def
  by (simp add: run_eval)

theorem worker_applies_unlocked_witness:
  "\<exists>s. reach (WorkerPool 4 (Some 1) [(echo, (''a'', ''b'', ''c''))]) s \<and>
     0 < length (workers s) \<and> w_pc (workers s ! 0) = W_Apply (echo, (''a'', ''b'', ''c''), 0) \<and>
     m_jobs s \<noteq> Some (Wk 0)"
proof -
  obtain s where r: "run (submit_one @ take_job 0) (WorkerPool 4 (Some 1) [(echo, (''a'', ''b'', ''c''))]) = Some s"
    and w: "workers s = [\<lparr> w_stop_flag = False, w_pc = W_Apply (echo, (''a'', ''b'', ''c''), 0) \<rparr>]"
    using take_job_run by auto
  from r have re: "reach (WorkerPool 4 (Some 1) [(echo, (''a'', ''b'', ''c''))]) s"
    by (rule run_reach) (rule reach_init)
  from w have l: "0 < length (workers s)"
    and p: "w_pc (workers s ! 0) = W_Apply (echo, (''a'', ''b'', ''c''), 0)"
    by simp_all
  from worker_applies_unlocked [OF re l p] re l p show ?thesis by blast
qed

subsection \<open>Answers come in the order of submission\<close>

lemma job_ok_mono: "job_ok js n job \<Longrightarrow> n \<le> m \<Longrightarrow> job_ok js m job"
  by (simp add: job_ok_def)

lemma worker_ok_mono: "worker_ok js n w \<Longrightarrow> n \<le> m \<Longrightarrow> worker_ok js m w"
  by (auto simp: worker_ok_def job_ok_def split: worker_pc.splits)

lemma jobs_ok_Suc: "list_all (job_ok js n) xs \<Longrightarrow> list_all (job_ok js (Suc n)) xs"
  by (auto simp: list_all_iff intro: job_ok_mono)

lemma workers_ok_Suc: "list_all (worker_ok js n) ws \<Longrightarrow> list_all (worker_ok js (Suc n)) ws"
  by (auto simp: list_all_iff intro: worker_ok_mono)

lemma worker_ok_wake [simp]: "worker_ok js n (wake w) = worker_ok js n w"
  by (simp add: worker_ok_def wake_def is_blocked_def split: worker_pc.splits)

lemma worker_ok_stop [simp]: "worker_ok js n (w\<lparr>w_stop_flag := b\<rparr>) = worker_ok js n w"
  by (simp add: worker_ok_def)

lemma workers_ok_update_wake:
  "list_all (worker_ok js n) ws \<Longrightarrow> list_all (worker_ok js n) (ws[c := wake (ws ! c)])"
  by (auto simp: list_all_length nth_update_at)

lemma workers_ok_update_stop:
  "list_all (worker_ok js n) ws \<Longrightarrow>
   list_all (worker_ok js n) (ws[c := (ws ! c)\<lparr>w_stop_flag := b\<rparr>])"
  by (auto simp: list_all_length nth_update_at)

lemma list_all_update: "list_all P xs \<Longrightarrow> P x \<Longrightarrow> list_all P (xs[i := x])"
  by (auto simp: list_all_length nth_update_at)

lemma list_all_nth: "list_all P xs \<Longrightarrow> i < length xs \<Longrightarrow> P (xs ! i)"
  by (simp add: list_all_length)

lemma taken_notify [simp]: "taken (printer_pc (notify_results s)) k = taken (printer_pc s) k"
  by (simp add: taken_def notify_results_def split: printer_pc.splits)

lemma printer_ok_notify [simp]:
  "printer_ok js (printer_pc (notify_results s)) k = printer_ok js (printer_pc s) k"
  by (simp add: printer_ok_def notify_results_def split: printer_pc.splits)

lemma notify_results_fields [simp]:
  "cells (notify_results s) = cells s" "jobs (notify_results s) = jobs s"
  "workers (notify_results s) = workers s" "results (notify_results s) = results s"
  "cout (notify_results s) = cout s" "cin (notify_results s) = cin s"
  "main_pc (notify_results s) = main_pc s"
  by (simp_all add: notify_results_def split: printer_pc.splits)

lemma order_inv_main:
  assumes "order_inv js s" and "main_step c s = Some s'"
  shows "order_inv js s'"
proof (cases "main_pc s")
  case M_Read
  with assms show ?thesis
    by (auto simp: main_step_def order_inv_def pending_def pushed_def
        main_ok_def main_job_def split: list.splits)
next
  case (S_Promise f a)
  with assms have d: "drop (length (cells s)) js = (f, a) # cin s"
    and le: "length (cells s) \<le> length js"
    by (simp_all add: order_inv_def pending_def)
  from d have lt: "length (cells s) < length js"
    by (metis drop_all leI list.distinct(1))
  from d lt have nth: "js ! length (cells s) = (f, a)"
    by (metis Cons_nth_drop_Suc list.inject)
  from d lt have d': "drop (Suc (length (cells s))) js = cin s"
    by (metis Cons_nth_drop_Suc list.inject)
  from assms S_Promise have s': "s' = s\<lparr>cells := cells s @ [None],
      main_pc := S_LockR (f, a, length (cells s))\<rparr>"
    by (simp add: main_step_def)
  from assms(1) S_Promise lt show ?thesis
    unfolding s' order_inv_def
    by (auto simp: pending_def pushed_def main_ok_def main_job_def
        promise_def func_def args_def nth d' nth_append job_ok_def [of js _ "(f, a, length (cells s))"]
        intro: jobs_ok_Suc workers_ok_Suc)
next
  case (S_LockR job)
  with assms show ?thesis
    by (auto simp: main_step_def order_inv_def pending_def pushed_def
        main_ok_def main_job_def split: option.splits)
next
  case (S_PushR job)
  with assms(1) have n: "Suc (promise job) = length (cells s)"
    by (simp add: order_inv_def main_ok_def main_job_def)
  from assms(1) S_PushR
  have t: "taken (printer_pc s) (length (cout s)) \<le> length (cells s) - Suc 0"
    by (simp add: order_inv_def pushed_def)
  then have r: "[taken (printer_pc s) (length (cout s))..<length (cells s) - Suc 0] @ [promise job] =
      [taken (printer_pc s) (length (cout s))..<length (cells s)]"
    unfolding n [symmetric] by simp
  from assms S_PushR have s': "s' = s\<lparr>results := results s @ [promise job],
      main_pc := S_UnlockR job\<rparr>"
    by (simp add: main_step_def)
  from assms(1) S_PushR t show ?thesis
    unfolding s' order_inv_def
    by (auto simp: r pending_def pushed_def main_ok_def main_job_def)
next
  case (S_UnlockR job)
  with assms show ?thesis
    by (auto simp: main_step_def order_inv_def pending_def pushed_def
        main_ok_def main_job_def split: option.splits)
next
  case (S_NotifyR job)
  with assms show ?thesis
    by (auto simp: main_step_def order_inv_def pending_def pushed_def
        main_ok_def main_job_def split: option.splits)
next
  case (S_LockJ job)
  with assms show ?thesis
    by (auto simp: main_step_def order_inv_def pending_def pushed_def
        main_ok_def main_job_def split: option.splits)
next
  case (S_PushJ job)
  with assms show ?thesis
    by (auto simp: main_step_def order_inv_def pending_def pushed_def
        main_ok_def main_job_def split: option.splits)
next
  case S_UnlockJ
  with assms show ?thesis
    by (auto simp: main_step_def order_inv_def pending_def pushed_def
        main_ok_def main_job_def split: option.splits)
next
  case S_NotifyJ
  with assms show ?thesis
    by (auto simp: main_step_def order_inv_def pending_def pushed_def
        main_ok_def main_job_def notify_one_jobs_def blocked_workers_def
        intro!: workers_ok_update_wake
        split: option.splits if_splits)
next
  case T_Store
  with assms show ?thesis
    by (auto simp: main_step_def order_inv_def pending_def pushed_def
        main_ok_def main_job_def split: option.splits)
next
  case T_Notify
  with assms show ?thesis
    by (auto simp: main_step_def order_inv_def pending_def pushed_def
        main_ok_def main_job_def split: option.splits)
next
  case M_Join
  with assms show ?thesis
    by (auto simp: main_step_def order_inv_def pending_def pushed_def
        main_ok_def main_job_def split: printer_pc.splits)
next
  case (D_Stop i)
  with assms show ?thesis
    by (auto simp: main_step_def order_inv_def pending_def pushed_def
        main_ok_def main_job_def intro!: workers_ok_update_stop
        split: if_splits)
next
  case D_Notify
  with assms show ?thesis
    by (auto simp: main_step_def order_inv_def pending_def pushed_def
        main_ok_def main_job_def notify_all_jobs_def list_all_iff)
next
  case (D_Join i)
  with assms show ?thesis
    by (auto simp: main_step_def order_inv_def pending_def pushed_def
        main_ok_def main_job_def split: if_splits worker_pc.splits)
next
  case M_Exit
  with assms show ?thesis by (simp add: main_step_def)
qed

lemma order_inv_worker:
  assumes "order_inv js s" and "worker_step i s = Some s'"
  shows "order_inv js s'"
proof -
  from assms(2) have i: "i < length (workers s)"
    by (simp add: worker_step_def split: if_splits)
  with assms(1) have wi: "worker_ok js (length (cells s)) (workers s ! i)"
    by (simp add: order_inv_def list_all_length)
  show ?thesis
  proof (cases "w_pc (workers s ! i)")
    case (W_Apply job)
    with wi have ok: "job_ok js (length (cells s)) job" by (simp add: worker_ok_def)
    show ?thesis
    proof (cases "std_apply (func job) (args job)")
      case (Inl e)
      with assms W_Apply i show ?thesis
        by (auto simp: worker_step_def set_worker_def order_inv_def worker_ok_def
            intro!: list_all_update)
    next
      case (Inr v)
      with ok have r: "result_of js (promise job) = Inr v"
        by (simp add: job_ok_def result_of_def)
      from assms W_Apply i Inr r show ?thesis
        by (auto simp: worker_step_def set_worker_def order_inv_def worker_ok_def nth_update_at
            intro!: list_all_update split: if_splits)
    qed
  next
    case W_Take
    with assms i show ?thesis
      by (auto simp: worker_step_def set_worker_def order_inv_def worker_ok_def
          intro!: list_all_update split: list.splits)
  qed (use assms i wi in \<open>auto simp: worker_step_def set_worker_def order_inv_def worker_ok_def
          intro!: list_all_update split: option.splits if_splits\<close>)
qed

lemma order_inv_printer:
  assumes "order_inv js s" and "printer_step s = Some s'"
  shows "order_inv js s'"
proof (cases "printer_pc s")
  case G_Take
  with assms show ?thesis
    by (auto simp: printer_step_def order_inv_def taken_def printer_ok_def upt_eq_Cons_conv
        split: list.splits)
next
  case (G_Get p)
  with assms show ?thesis
    by (auto simp: printer_step_def order_inv_def taken_def printer_ok_def
        split: option.splits if_splits)
next
  case (P_Got r)
  with assms show ?thesis
    by (auto simp: printer_step_def order_inv_def taken_def printer_ok_def nth_append less_Suc_eq
        split: option.splits)
qed (use assms in \<open>auto simp: printer_step_def order_inv_def taken_def printer_ok_def
          split: option.splits if_splits\<close>)

lemma order_inv_exec:
  assumes "order_inv js s" and "exec act s = Some s'"
  shows "order_inv js s'"
proof (cases act)
  case (Run_main c)
  with assms show ?thesis by (simp add: exec_def order_inv_main)
next
  case Run_printer
  with assms show ?thesis by (simp add: exec_def order_inv_printer)
next
  case (Run_worker k)
  with assms show ?thesis by (simp add: exec_def order_inv_worker)
next
  case Spurious_printer
  with assms show ?thesis
    by (auto simp: exec_def order_inv_def taken_def printer_ok_def split: printer_pc.splits)
next
  case (Spurious_worker k)
  with assms have k: "k < length (workers s)"
    and s': "s' = s\<lparr>workers := (workers s)[k := wake (workers s ! k)]\<rparr>"
    by (auto simp: exec_def split: if_splits)
  from assms(1) k have "worker_ok js (length (cells s)) (workers s ! k)"
    by (simp add: order_inv_def list_all_length)
  with assms(1) show ?thesis
    unfolding s' order_inv_def by (auto intro!: list_all_update)
qed

lemma order_inv_init: "order_inv js (WorkerPool hc nt js)"
  by (simp add: order_inv_def WorkerPool_def Let_def pending_def pushed_def taken_def
      printer_ok_def main_ok_def main_job_def worker_ok_def list_all_length)

lemma order_inv_reach: "reach s0 s \<Longrightarrow> order_inv js s0 \<Longrightarrow> order_inv js s"
  by (induction rule: reach.induct) (auto intro: order_inv_exec)

text \<open>
  C1: whatever the schedule, the \<open>i\<close>-th answer the consumer has got from \<open>get_answer\<close>
  and printed is the result of the \<open>i\<close>-th job the producer submitted.
\<close>

theorem results_in_submission_order:
  assumes "reach (WorkerPool hc nt js) s" and "i < length (cout s)"
  shows "i < length js \<and> (case js ! i of (f, a) \<Rightarrow> std_apply f a) = Inr (cout s ! i)"
proof -
  have inv: "order_inv js s"
    using order_inv_reach [OF assms(1) order_inv_init] .
  have "length (cout s) \<le> taken (printer_pc s) (length (cout s))"
    by (simp add: taken_def split: printer_pc.splits option.splits)
  with inv have "length (cout s) \<le> length js" by (simp add: order_inv_def)
  with inv assms(2) show ?thesis by (simp add: order_inv_def result_of_def)
qed

text \<open>
  The theorem on an execution with two workers where the second job is computed first.
\<close>

lemma out_of_order_run:
  "map_option (\<lambda>s. (cout s, cells s)) (run out_of_order (WorkerPool 4 (Some 2) two_jobs)) =
     Some ([''abc'', ''xyz''], [Some ''abc'', Some ''xyz''])"
  unfolding pool_of_two out_of_order_def submit_one_def take_job_def collect_one_def two_jobs_def
  by (simp add: run_eval echo_def)

theorem results_in_submission_order_witness:
  "\<exists>s. reach (WorkerPool 4 (Some 2) two_jobs) s \<and> Suc 0 < length (cout s) \<and>
     cout s = [''abc'', ''xyz''] \<and>
     Suc 0 < length two_jobs \<and>
     (case two_jobs ! Suc 0 of (f, a) \<Rightarrow> std_apply f a) = Inr (cout s ! Suc 0)"
proof -
  obtain s where r: "run out_of_order (WorkerPool 4 (Some 2) two_jobs) = Some s"
    and c: "cout s = [''abc'', ''xyz'']"
    using out_of_order_run by auto
  from r have re: "reach (WorkerPool 4 (Some 2) two_jobs) s"
    by (rule run_reach) (rule reach_init)
  from c have l: "Suc 0 < length (cout s)" by simp
  from results_in_submission_order [OF re l] re l c show ?thesis by blast
qed

subsection \<open>Shutdown\<close>

lemma wake_flag [simp]: "w_stop_flag (wake w) = w_stop_flag w"
  by (simp add: wake_def)

lemma wake_Done [simp]: "(w_pc (wake w) = W_Done) = (w_pc w = W_Done)"
  by (auto simp: wake_def is_blocked_def split: worker_pc.splits)

lemma shutdown_at_wake:
  "shutdown_at pc (ws[c := wake (ws ! c)]) = shutdown_at pc ws"
  by (cases pc) (auto simp: shutdown_at_def nth_update_at)

lemma shutdown_at_wake_all:
  "shutdown_at pc (map wake ws) = shutdown_at pc ws"
  by (cases pc) (auto simp: shutdown_at_def)

lemma shutdown_inv_main:
  assumes "shutdown_inv s" and "main_step c s = Some s'"
  shows "shutdown_inv s'"
proof (cases "main_pc s")
  case M_Read
  with assms show ?thesis
    by (auto simp: main_step_def shutdown_inv_def shutdown_at_def split: list.splits)
next
  case (S_LockR job)
  with assms show ?thesis
    by (auto simp: main_step_def shutdown_inv_def shutdown_at_def split: option.splits)
next
  case (S_LockJ job)
  with assms show ?thesis
    by (auto simp: main_step_def shutdown_inv_def shutdown_at_def split: option.splits)
next
  case S_NotifyJ
  with assms show ?thesis
    by (auto simp: main_step_def shutdown_inv_def shutdown_at_def notify_one_jobs_def
        split: option.splits if_splits)
next
  case M_Join
  with assms show ?thesis
    by (auto simp: main_step_def shutdown_inv_def shutdown_at_def split: printer_pc.splits)
next
  case (D_Stop i)
  with assms show ?thesis
    by (auto simp: main_step_def shutdown_inv_def shutdown_at_def nth_update_at less_Suc_eq
        split: if_splits)
next
  case D_Notify
  with assms show ?thesis
    by (auto simp: main_step_def shutdown_inv_def shutdown_at_def notify_all_jobs_def)
next
  case (D_Join i)
  with assms show ?thesis
    by (auto simp: main_step_def shutdown_inv_def shutdown_at_def less_Suc_eq
        split: if_splits worker_pc.splits)
qed (use assms in \<open>auto simp: main_step_def shutdown_inv_def shutdown_at_def\<close>)

lemma printer_step_frame:
  "printer_step s = Some s' \<Longrightarrow> main_pc s' = main_pc s \<and> workers s' = workers s"
  unfolding printer_step_def
  by (cases "printer_pc s") (auto split: list.splits option.splits if_splits)

lemma shutdown_inv_printer:
  "shutdown_inv s \<Longrightarrow> printer_step s = Some s' \<Longrightarrow> shutdown_inv s'"
  by (simp add: shutdown_inv_def printer_step_frame)

lemma worker_step_frame:
  assumes "worker_step k s = Some s'"
  shows "main_pc s' = main_pc s \<and> length (workers s') = length (workers s) \<and>
    (\<forall>j. w_stop_flag (workers s' ! j) = w_stop_flag (workers s ! j)) \<and>
    (\<forall>j. w_pc (workers s ! j) = W_Done \<longrightarrow> w_pc (workers s' ! j) = W_Done)"
  using assms unfolding worker_step_def set_worker_def
  by (cases "w_pc (workers s ! k)")
    (auto simp: nth_update_at split: list.splits option.splits if_splits sum.splits)

lemma shutdown_inv_worker:
  assumes "shutdown_inv s" and "worker_step k s = Some s'"
  shows "shutdown_inv s'"
  using assms(1) worker_step_frame [OF assms(2)]
  by (cases "main_pc s") (auto simp: shutdown_inv_def shutdown_at_def)

lemma shutdown_inv_exec:
  assumes "shutdown_inv s" and "exec act s = Some s'"
  shows "shutdown_inv s'"
proof (cases act)
  case (Run_main c)
  with assms show ?thesis by (simp add: exec_def shutdown_inv_main)
next
  case Run_printer
  with assms show ?thesis by (simp add: exec_def shutdown_inv_printer)
next
  case (Run_worker k)
  with assms show ?thesis by (simp add: exec_def shutdown_inv_worker)
next
  case Spurious_printer
  with assms show ?thesis
    by (auto simp: exec_def shutdown_inv_def split: printer_pc.splits)
next
  case (Spurious_worker k)
  with assms show ?thesis
    by (auto simp: exec_def shutdown_inv_def shutdown_at_wake split: if_splits)
qed

lemma shutdown_inv_reach: "reach s0 s \<Longrightarrow> shutdown_inv s0 \<Longrightarrow> shutdown_inv s"
  by (induction rule: reach.induct) (auto intro: shutdown_inv_exec)

lemma shutdown_inv_init: "shutdown_inv (WorkerPool hc nt inp)"
  by (simp add: shutdown_inv_def shutdown_at_def WorkerPool_def Let_def)

lemma stop_effect:
  "stop_flag (stop s) \<and> printer_pc (stop s) \<noteq> G_Blocked \<and> workers (stop s) = workers s \<and>
   jobs (stop s) = jobs s \<and> results (stop s) = results s \<and> m_jobs (stop s) = m_jobs s \<and>
   main_pc (stop s) = main_pc s"
  by (cases "printer_pc s") (simp_all add: stop_def notify_results_def)

lemma stop_run:
  "main_pc s = T_Store \<Longrightarrow> run [Run_main c, Run_main c] s = Some ((stop s)\<lparr>main_pc := M_Join\<rparr>)"
  by (cases "printer_pc s") (simp_all add: exec_def main_step_def stop_def notify_results_def)

lemma notify_all_jobs_effect:
  "\<forall>w \<in> set (workers (notify_all_jobs s)). \<not> is_blocked w"
  by (auto simp: notify_all_jobs_def wake_def is_blocked_def split: worker_pc.splits)

text \<open>
  C2, as the code has it. \<open>WorkerPool::stop\<close> raises the stop flag of the pool, wakes
  the thread blocked on the result queue and returns: the main thread is then at
  \<open>printer.join()\<close>, and no worker has changed. It is \<open>~WorkerPool\<close> that raises the flag of
  every worker and then wakes every thread blocked on the job queue, and the destruction
  of \<open>workers\<close> that waits for the thread of every worker: where \<open>main\<close> has ended, every
  worker has left its loop.
\<close>

theorem shutdown_is_split:
  "(main_pc s = T_Store \<longrightarrow>
      run [Run_main c, Run_main c] s = Some ((stop s)\<lparr>main_pc := M_Join\<rparr>) \<and>
      stop_flag (stop s) \<and> printer_pc (stop s) \<noteq> G_Blocked \<and> workers (stop s) = workers s) \<and>
   (reach (WorkerPool hc nt inp) t \<and> main_pc t = D_Notify \<longrightarrow>
      (\<forall>j < length (workers t). w_stop_flag (workers t ! j)) \<and>
      main_step c t = Some ((notify_all_jobs t)\<lparr>main_pc := D_Join 0\<rparr>) \<and>
      (\<forall>w \<in> set (workers (notify_all_jobs t)). \<not> is_blocked w)) \<and>
   (reach (WorkerPool hc nt inp) u \<and> main_pc u = M_Exit \<longrightarrow>
      (\<forall>j < length (workers u). w_pc (workers u ! j) = W_Done))"
proof (intro conjI impI)
  assume "main_pc s = T_Store"
  then show "run [Run_main c, Run_main c] s = Some ((stop s)\<lparr>main_pc := M_Join\<rparr>)"
    by (rule stop_run)
next
  show "stop_flag (stop s)" "printer_pc (stop s) \<noteq> G_Blocked" "workers (stop s) = workers s"
    using stop_effect [of s] by simp_all
next
  assume a: "reach (WorkerPool hc nt inp) t \<and> main_pc t = D_Notify"
  then have "shutdown_inv t" using shutdown_inv_reach shutdown_inv_init by blast
  with a show "\<forall>j < length (workers t). w_stop_flag (workers t ! j)"
    by (simp add: shutdown_inv_def shutdown_at_def)
  from a show "main_step c t = Some ((notify_all_jobs t)\<lparr>main_pc := D_Join 0\<rparr>)"
    by (simp add: main_step_def)
  show "\<forall>w \<in> set (workers (notify_all_jobs t)). \<not> is_blocked w"
    by (rule notify_all_jobs_effect)
next
  assume a: "reach (WorkerPool hc nt inp) u \<and> main_pc u = M_Exit"
  then have "shutdown_inv u" using shutdown_inv_reach shutdown_inv_init by blast
  with a show "\<forall>j < length (workers u). w_pc (workers u ! j) = W_Done"
    by (simp add: shutdown_inv_def shutdown_at_def)
qed

text \<open>
  C2 as stated fails on a pool of one worker that blocks on the empty job queue before
  \<open>stop\<close> is called: \<open>stop\<close> has returned (the main thread is at \<open>printer.join()\<close>) while the
  worker is still blocked, with its flag down and its thread not ended.
\<close>

theorem stop_leaves_worker_blocked:
  "map_option (\<lambda>s. (main_pc s, stop_flag s, workers s))
     (run stop_early (WorkerPool 4 (Some 1) no_jobs)) =
   Some (M_Join, True, [\<lparr> w_stop_flag = False, w_pc = W_Blocked \<rparr>])"
  unfolding pool_of_one stop_early_def no_jobs_def by (simp add: run_eval)

lemma run_to_exit_run:
  "map_option (\<lambda>s. (main_pc s, workers s))
     (run run_to_exit (WorkerPool 4 (Some 1) no_jobs)) =
   Some (M_Exit, [\<lparr> w_stop_flag = True, w_pc = W_Done \<rparr>])"
  unfolding pool_of_one run_to_exit_def no_jobs_def by (simp add: run_eval)

lemma run_to_notify_run:
  "map_option (\<lambda>s. (main_pc s, workers s))
     (run (take 10 run_to_exit) (WorkerPool 4 (Some 1) no_jobs)) =
   Some (D_Notify, [\<lparr> w_stop_flag = True, w_pc = W_Lock \<rparr>])"
  unfolding pool_of_one run_to_exit_def no_jobs_def by (simp add: run_eval)

theorem shutdown_is_split_witness:
  "\<exists>s t u. reach (WorkerPool 4 (Some 1) no_jobs) s \<and> main_pc s = T_Store \<and>
     run [Run_main 0, Run_main 0] s = Some ((stop s)\<lparr>main_pc := M_Join\<rparr>) \<and>
     reach (WorkerPool 4 (Some 1) no_jobs) t \<and> main_pc t = D_Notify \<and>
     main_step 0 t = Some ((notify_all_jobs t)\<lparr>main_pc := D_Join 0\<rparr>) \<and>
     reach (WorkerPool 4 (Some 1) no_jobs) u \<and> main_pc u = M_Exit \<and>
     w_pc (workers u ! 0) = W_Done"
proof -
  let ?init = "WorkerPool 4 (Some 1) no_jobs"
  obtain s where s: "run [Run_main 0] ?init = Some s" and sp: "main_pc s = T_Store"
    unfolding pool_of_one no_jobs_def by (simp add: run_eval)
  obtain t where t: "run (take 10 run_to_exit) ?init = Some t" and tp: "main_pc t = D_Notify"
    using run_to_notify_run by auto
  obtain u where u: "run run_to_exit ?init = Some u" and up: "main_pc u = M_Exit"
    and uw: "workers u = [\<lparr> w_stop_flag = True, w_pc = W_Done \<rparr>]"
    using run_to_exit_run by auto
  have rs: "reach ?init s" using s by (rule run_reach) (rule reach_init)
  have rt: "reach ?init t" using t by (rule run_reach) (rule reach_init)
  have ru: "reach ?init u" using u by (rule run_reach) (rule reach_init)
  from uw have "0 < length (workers u)" by simp
  with shutdown_is_split [of s 0 4 "Some 1" no_jobs t u] sp rt tp ru up
  have "run [Run_main 0, Run_main 0] s = Some ((stop s)\<lparr>main_pc := M_Join\<rparr>)"
    and "main_step 0 t = Some ((notify_all_jobs t)\<lparr>main_pc := D_Join 0\<rparr>)"
    and "w_pc (workers u ! 0) = W_Done"
    by simp_all
  with rs sp rt tp ru up show ?thesis by blast
qed

subsection \<open>get\_answer\<close>

lemma check_at_notify [simp]:
  "check_at (printer_pc (notify_results s)) rs st = check_at (printer_pc s) rs st"
  by (cases "printer_pc s") (simp_all add: notify_results_def check_at_def)

lemma notify_results_more [simp]:
  "stop_flag (notify_results s) = stop_flag s"
  by (cases "printer_pc s") (simp_all add: notify_results_def)














subsection \<open>set\_job\<close>



lemma notify_results_commute [simp]:
  "notify_results (s\<lparr>main_pc := pc\<rparr>) = (notify_results s)\<lparr>main_pc := pc\<rparr>"
  "notify_results (s\<lparr>m_results := mr\<rparr>) = (notify_results s)\<lparr>m_results := mr\<rparr>"
  "notify_results (s\<lparr>m_jobs := mj\<rparr>) = (notify_results s)\<lparr>m_jobs := mj\<rparr>"
  "notify_results (s\<lparr>cells := cs\<rparr>) = (notify_results s)\<lparr>cells := cs\<rparr>"
  "notify_results (s\<lparr>results := rs\<rparr>) = (notify_results s)\<lparr>results := rs\<rparr>"
  "notify_results (s\<lparr>jobs := js\<rparr>) = (notify_results s)\<lparr>jobs := js\<rparr>"
  by (cases "printer_pc s"; simp add: notify_results_def)+

lemma notify_results_locks [simp]:
  "m_jobs (notify_results s) = m_jobs s" "m_results (notify_results s) = m_results s"
  by (cases "printer_pc s"; simp add: notify_results_def)+

lemma notify_one_jobs_frame:
  assumes "notify_one_jobs c s = Some s'"
  shows "cells s' = cells s \<and> results s' = results s \<and> jobs s' = jobs s"
  using assms by (auto simp: notify_one_jobs_def split: if_splits)

lemma notify_one_jobs_enabled:
  "blocked_workers s = [] \<or> c \<in> set (blocked_workers s) \<Longrightarrow> \<exists>s'. notify_one_jobs c s = Some s'"
  by (auto simp: notify_one_jobs_def)

lemma set_job_first:
  assumes "main_pc s = S_Promise f a" and "m_results s = None"
  shows "run [Run_main c, Run_main c, Run_main c] s =
    Some (s\<lparr>cells := cells s @ [None], m_results := Some Main,
      results := results s @ [length (cells s)], main_pc := S_UnlockR (f, a, length (cells s))\<rparr>)"
  using assms by (simp add: exec_def main_step_def promise_def)

lemma set_job_second:
  assumes "main_pc s3 = S_UnlockR job" and "m_jobs s3 = None"
  shows "run [Run_main c, Run_main c, Run_main c, Run_main c] s3 =
    Some ((notify_results s3)\<lparr>m_results := None, m_jobs := Some Main,
      jobs := jobs s3 @ [job], main_pc := S_UnlockJ\<rparr>)"
  using assms by (simp add: exec_def main_step_def)

lemma set_job_third:
  assumes "main_pc s7 = S_UnlockJ" and "blocked_workers s7 = [] \<or> c \<in> set (blocked_workers s7)"
  shows "\<exists>s9. run [Run_main c, Run_main c] s7 = Some s9 \<and> main_pc s9 = M_Read \<and>
      cells s9 = cells s7 \<and> results s9 = results s7 \<and> jobs s9 = jobs s7"
proof -
  let ?s8 = "s7\<lparr>m_jobs := None, main_pc := S_NotifyJ\<rparr>"
  have "blocked_workers ?s8 = blocked_workers s7" by (simp add: blocked_workers_def)
  with assms(2) obtain t where t: "notify_one_jobs c ?s8 = Some t"
    using notify_one_jobs_enabled [of ?s8 c] by auto
  from notify_one_jobs_frame [OF t]
  have "cells t = cells s7" "results t = results s7" "jobs t = jobs s7" by simp_all
  moreover from assms(1) t have "run [Run_main c, Run_main c] s7 = Some (t\<lparr>main_pc := M_Read\<rparr>)"
    by (simp add: exec_def main_step_def)
  ultimately show ?thesis by simp
qed

text \<open>
  C4: from its first statement, with both mutexes free, \<open>set_job\<close> runs nine steps
  alone. After three the promise is created and its future is at the back of \<open>results\<close>,
  with \<open>jobs\<close> as it was; after four more the request with the function, the arguments
  and the promise is at the back of \<open>jobs\<close>; after two more \<open>set_job\<close> has returned to
  the reading loop, and the cell of the promise is still empty.
\<close>

theorem set_job_steps:
  assumes "main_pc s = S_Promise f a" and "m_results s = None" and "m_jobs s = None"
    and "blocked_workers s = [] \<or> c \<in> set (blocked_workers s)"
  shows "\<exists>s3 s7 s9.
     run [Run_main c, Run_main c, Run_main c] s = Some s3 \<and>
     results s3 = results s @ [length (cells s)] \<and> jobs s3 = jobs s \<and>
     run [Run_main c, Run_main c, Run_main c, Run_main c] s3 = Some s7 \<and>
     results s7 = results s @ [length (cells s)] \<and>
     jobs s7 = jobs s @ [(f, a, length (cells s))] \<and>
     run [Run_main c, Run_main c] s7 = Some s9 \<and>
     main_pc s9 = M_Read \<and> cells s9 = cells s @ [None] \<and>
     results s9 = results s7 \<and> jobs s9 = jobs s7"
proof -
  define s3 where "s3 = s\<lparr>cells := cells s @ [None], m_results := Some Main,
      results := results s @ [length (cells s)], main_pc := S_UnlockR (f, a, length (cells s))\<rparr>"
  define s7 where "s7 = (notify_results s3)\<lparr>m_results := None, m_jobs := Some Main,
      jobs := jobs s3 @ [(f, a, length (cells s))], main_pc := S_UnlockJ\<rparr>"
  have 1: "run [Run_main c, Run_main c, Run_main c] s = Some s3"
    unfolding s3_def using assms(1,2) by (rule set_job_first)
  have "main_pc s3 = S_UnlockR (f, a, length (cells s))" "m_jobs s3 = None"
    using assms(3) by (simp_all add: s3_def)
  then have 2: "run [Run_main c, Run_main c, Run_main c, Run_main c] s3 = Some s7"
    unfolding s7_def by (rule set_job_second)
  have f3: "results s3 = results s @ [length (cells s)]" "jobs s3 = jobs s"
    "cells s3 = cells s @ [None]" "workers s3 = workers s"
    by (simp_all add: s3_def)
  have f7: "results s7 = results s3" "jobs s7 = jobs s3 @ [(f, a, length (cells s))]"
    "cells s7 = cells s3" "workers s7 = workers s3" "main_pc s7 = S_UnlockJ"
    by (simp_all add: s7_def)
  have "blocked_workers s7 = blocked_workers s"
    by (simp add: blocked_workers_def f3 f7)
  with assms(4) have "blocked_workers s7 = [] \<or> c \<in> set (blocked_workers s7)" by simp
  from set_job_third [OF f7(5) this] obtain s9 where
    "run [Run_main c, Run_main c] s7 = Some s9" "main_pc s9 = M_Read"
    "cells s9 = cells s7" "results s9 = results s7" "jobs s9 = jobs s7"
    by blast
  with 1 2 f3 f7 show ?thesis by (intro exI [of _ s3] exI [of _ s7] exI [of _ s9]) simp
qed

lemma read_one_run:
  "map_option (\<lambda>s. (main_pc s, m_results s, m_jobs s, workers s, results s, jobs s, cells s))
     (run [Run_main 0] (WorkerPool 4 (Some 1) one_job)) =
   Some (S_Promise echo (''a'', ''b'', ''c''), None, None,
     [\<lparr> w_stop_flag = False, w_pc = W_Lock \<rparr>], [], [], [])"
  unfolding pool_of_one one_job_def by (simp add: run_eval)

theorem set_job_steps_witness:
  "\<exists>s s3 s7 s9. reach (WorkerPool 4 (Some 1) one_job) s \<and>
     main_pc s = S_Promise echo (''a'', ''b'', ''c'') \<and> m_results s = None \<and> m_jobs s = None \<and>
     blocked_workers s = [] \<and>
     run [Run_main 0, Run_main 0, Run_main 0] s = Some s3 \<and>
     results s3 = [0] \<and> jobs s3 = [] \<and>
     run [Run_main 0, Run_main 0, Run_main 0, Run_main 0] s3 = Some s7 \<and>
     results s7 = [0] \<and> jobs s7 = [(echo, (''a'', ''b'', ''c''), 0)] \<and>
     run [Run_main 0, Run_main 0] s7 = Some s9 \<and>
     main_pc s9 = M_Read \<and> cells s9 = [None]"
proof -
  obtain s where r: "run [Run_main 0] (WorkerPool 4 (Some 1) one_job) = Some s"
    and pc: "main_pc s = S_Promise echo (''a'', ''b'', ''c'')"
    and mr: "m_results s = None" and mj: "m_jobs s = None"
    and ws: "workers s = [\<lparr> w_stop_flag = False, w_pc = W_Lock \<rparr>]"
    and q: "results s = []" "jobs s = []" "cells s = []"
    using read_one_run by auto
  have re: "reach (WorkerPool 4 (Some 1) one_job) s"
    using r by (rule run_reach) (rule reach_init)
  have b: "blocked_workers s = []"
    by (simp add: blocked_workers_def ws is_blocked_def)
  then have b': "blocked_workers s = [] \<or> 0 \<in> set (blocked_workers s)" by simp
  from set_job_steps [OF pc mr mj b'] obtain s3 s7 s9 where
    "run [Run_main 0, Run_main 0, Run_main 0] s = Some s3"
    "results s3 = results s @ [length (cells s)]" "jobs s3 = jobs s"
    "run [Run_main 0, Run_main 0, Run_main 0, Run_main 0] s3 = Some s7"
    "results s7 = results s @ [length (cells s)]"
    "jobs s7 = jobs s @ [(echo, (''a'', ''b'', ''c''), length (cells s))]"
    "run [Run_main 0, Run_main 0] s7 = Some s9"
    "main_pc s9 = M_Read" "cells s9 = cells s @ [None]"
    by blast
  with q have "run [Run_main 0, Run_main 0, Run_main 0] s = Some s3 \<and>
     results s3 = [0] \<and> jobs s3 = [] \<and>
     run [Run_main 0, Run_main 0, Run_main 0, Run_main 0] s3 = Some s7 \<and>
     results s7 = [0] \<and> jobs s7 = [(echo, (''a'', ''b'', ''c''), 0)] \<and>
     run [Run_main 0, Run_main 0] s7 = Some s9 \<and>
     main_pc s9 = M_Read \<and> cells s9 = [None]"
    by simp
  with re pc mr mj b show ?thesis by blast
qed

subsection \<open>Waking a blocked worker\<close>











end
